theory Spec2Isabelle
  imports Complex_Main
begin

section \<open>Snake on a wrapping grid: the game logic of src/App.tsx\<close>

text \<open>
  The React component of \<^verbatim>\<open>src/App.tsx\<close> keeps the game in \<^verbatim>\<open>useState\<close> cells and
  changes them from three kinds of callbacks: the interval callback (one tick), the
  keyboard and touch listeners, and the three buttons. The model below keeps all state
  cells in one record and turns every callback into a function from the record to the
  new record. One callback is one atomic transition (the browser's event queue runs
  them one after the other), and an updater function passed to a state setter is
  applied once, to the current value of its cell.

  JavaScript numbers that hold grid coordinates and scores are modelled as \<open>int\<close>;
  pointer coordinates and the results of \<^verbatim>\<open>Math.random()\<close> are the real numbers that
  the doubles stand for. Comparison and absolute value of doubles are exact on these
  reals. Subtraction of doubles rounds, so the subtraction of pointer coordinates is a
  parameter \<open>fsub\<close> of the model, about which nothing is assumed. The product
  \<^verbatim>\<open>Math.random() * GRID\<close> is taken exactly; rounding there can change which cell is
  drawn, not how the drawn cell is checked.
\<close>

subsection \<open>Cells and directions (lines 3-43)\<close>

record cell =
  x :: int
  y :: int

datatype Dir = Up | Down | Left | Right

definition GRID :: int where
  "GRID = 18"

definition same :: "cell \<Rightarrow> cell \<Rightarrow> bool" where
  "same a b = (x a = x b \<and> y a = y b)"

definition isOpposite :: "Dir \<Rightarrow> Dir \<Rightarrow> bool" where
  "isOpposite a b =
     ((a = Up \<and> b = Down) \<or>
      (a = Down \<and> b = Up) \<or>
      (a = Left \<and> b = Right) \<or>
      (a = Right \<and> b = Left))"

definition dirVec :: "Dir \<Rightarrow> cell" where
  "dirVec d =
     (if d = Up then \<lparr>x = 0, y = -1\<rparr>
      else if d = Down then \<lparr>x = 0, y = 1\<rparr>
      else if d = Left then \<lparr>x = -1, y = 0\<rparr>
      else \<lparr>x = 1, y = 0\<rparr>)"

definition wrap :: "int \<Rightarrow> int" where
  "wrap n = (if n < 0 then GRID - 1 else if n \<ge> GRID then 0 else n)"

subsection \<open>The component's state (lines 46-64)\<close>

text \<open>
  One field per \<^verbatim>\<open>useState\<close> cell, and three more for what the component keeps
  outside React: \<open>startPt\<close> is the variable of the swipe effect's closure,
  \<open>snake_best\<close> the \<^verbatim>\<open>localStorage\<close> entry of that name (\<open>None\<close> when absent, the
  stored number otherwise), and \<open>randomCalls\<close> counts the calls of \<^verbatim>\<open>Math.random()\<close>
  made so far, so that the next call returns \<open>rnd (randomCalls st)\<close> for the
  sequence \<open>rnd\<close> of results the generator produces in this session.
\<close>

record game =
  snake :: "cell list"
  dir :: Dir
  nextDir :: Dir
  food :: cell
  score :: int
  best :: int
  running :: bool
  paused :: bool
  dead :: bool
  startPt :: "(real \<times> real) option"
  snake_best :: "int option"
  randomCalls :: nat

datatype error = TypeError

definition startSnake :: "cell list" where
  "startSnake = [\<lparr>x = 9, y = 9\<rparr>, \<lparr>x = 8, y = 9\<rparr>, \<lparr>x = 7, y = 9\<rparr>]"

text \<open>The state of the first render; \<open>stored\<close> is what \<^verbatim>\<open>localStorage\<close> holds.\<close>

definition initial :: "int option \<Rightarrow> game" where
  "initial stored =
     \<lparr>snake = [\<lparr>x = 9, y = 9\<rparr>, \<lparr>x = 8, y = 9\<rparr>, \<lparr>x = 7, y = 9\<rparr>],
      dir = Right,
      nextDir = Right,
      food = \<lparr>x = 4, y = 6\<rparr>,
      score = 0,
      best = (case stored of None \<Rightarrow> 0 | Some b \<Rightarrow> b),
      running = False,
      paused = False,
      dead = False,
      startPt = None,
      snake_best = stored,
      randomCalls = 0\<rparr>"

subsection \<open>Speed and tick period (lines 66-72)\<close>

definition speed :: "int \<Rightarrow> int" where
  "speed sc = (let base = 9; bonus = \<lfloor>real_of_int sc / 5\<rfloor> * 2 in base + bonus)"

definition tickMs :: "int \<Rightarrow> int" where
  "tickMs sp = max 55 \<lfloor>1000 / real_of_int sp\<rfloor>"

subsection \<open>Food placement (lines 74-79)\<close>

text \<open>
  The loop draws two random numbers per round and returns the first cell that is on
  no cell of \<open>s\<close>. It has no bound: when every draw lands on \<open>s\<close> it never returns,
  which is the value \<open>None\<close> here. The result carries the new count of calls.
\<close>

text \<open>The cell of line 76, from the calls number \<open>i\<close> and \<open>i + 1\<close> of the generator.\<close>

definition randomCell :: "(nat \<Rightarrow> real) \<Rightarrow> nat \<Rightarrow> cell" where
  "randomCell rnd i =
     \<lparr>x = \<lfloor>rnd i * real_of_int GRID\<rfloor>, y = \<lfloor>rnd (i + 1) * real_of_int GRID\<rfloor>\<rparr>"

partial_function (option) spawnFood :: "(nat \<Rightarrow> real) \<Rightarrow> nat \<Rightarrow> cell list \<Rightarrow> (cell \<times> nat) option" where
  "spawnFood rnd i s =
     (let f = randomCell rnd i
      in if \<not> list_ex (\<lambda>c. same c f) s then Some (f, i + 2)
         else spawnFood rnd (i + 2) s)"

declare spawnFood.simps [code]

subsection \<open>Lifecycle commands (lines 88-129)\<close>

definition restart :: "(nat \<Rightarrow> real) \<Rightarrow> game \<Rightarrow> game option" where
  "restart rnd st =
     (case spawnFood rnd (randomCalls st) startSnake of
        None \<Rightarrow> None
      | Some (f, n) \<Rightarrow>
          Some (st\<lparr>snake := startSnake, dir := Right, nextDir := Right, food := f,
                    score := 0, dead := False, paused := False, running := False,
                    randomCalls := n\<rparr>))"

definition startGame :: "game \<Rightarrow> game" where
  "startGame st = st\<lparr>dead := False, paused := False, running := True\<rparr>"

definition togglePause :: "game \<Rightarrow> game" where
  "togglePause st =
     (if \<not> running st \<or> dead st then st else st\<lparr>paused := \<not> paused st\<rparr>)"

definition die :: "int \<Rightarrow> game \<Rightarrow> game" where
  "die finalScore st =
     (let st1 = st\<lparr>dead := True, running := False, paused := False\<rparr>
      in if finalScore > best st
         then st1\<lparr>best := finalScore, snake_best := Some finalScore\<rparr>
         else st1)"

subsection \<open>Direction requests (lines 132-191)\<close>

text \<open>
  Every direction request, from an arrow key or from a swipe, is the same updater
  \<^verbatim>\<open>setNextDir((d) => (isOpposite(d, nd) ? d : nd))\<close>; React applies it to the
  current value of the \<open>nextDir\<close> cell.
\<close>

definition setNextDirection :: "Dir \<Rightarrow> game \<Rightarrow> game" where
  "setNextDirection nd st =
     st\<lparr>nextDir := (if isOpposite (nextDir st) nd then nextDir st else nd)\<rparr>"

text \<open>
  \<^verbatim>\<open>toLowerCase\<close> on the letters A to Z; no other character lower-cases to
  \<^verbatim>\<open>r\<close> or \<^verbatim>\<open>s\<close>, which are the only strings the result is compared with.
\<close>

definition toLowerCase :: "string \<Rightarrow> string" where
  "toLowerCase =
     map (\<lambda>c. case map_of (zip ''ABCDEFGHIJKLMNOPQRSTUVWXYZ'' ''abcdefghijklmnopqrstuvwxyz'') c of
                 None \<Rightarrow> c
               | Some l \<Rightarrow> l)"

definition onKey :: "(nat \<Rightarrow> real) \<Rightarrow> string \<Rightarrow> game \<Rightarrow> game option" where
  "onKey rnd key st =
     (let st1 = (if key = ''ArrowUp'' then setNextDirection Up st else st);
          st2 = (if key = ''ArrowDown'' then setNextDirection Down st1 else st1);
          st3 = (if key = ''ArrowLeft'' then setNextDirection Left st2 else st2);
          st4 = (if key = ''ArrowRight'' then setNextDirection Right st3 else st3);
          st5 = (if key = '' '' then togglePause st4 else st4)
      in case (if toLowerCase key = ''r'' then restart rnd st5 else Some st5) of
           None \<Rightarrow> None
         | Some st6 \<Rightarrow> Some (if toLowerCase key = ''s'' then startGame st6 else st6))"

definition onTouchStart :: "real \<times> real \<Rightarrow> game \<Rightarrow> game" where
  "onTouchStart t st = st\<lparr>startPt := Some t\<rparr>"

definition onTouchEnd :: "(real \<Rightarrow> real \<Rightarrow> real) \<Rightarrow> real \<times> real \<Rightarrow> game \<Rightarrow> game" where
  "onTouchEnd fsub t st =
     (case startPt st of
        None \<Rightarrow> st
      | Some p \<Rightarrow>
          let dx = fsub (fst t) (fst p);
              dy = fsub (snd t) (snd p);
              st1 = st\<lparr>startPt := None\<rparr>;
              ax = \<bar>dx\<bar>;
              ay = \<bar>dy\<bar>
          in if max ax ay < 14 then st1
             else if ax > ay
               then setNextDirection (if dx > 0 then Right else Left) st1
               else setNextDirection (if dy > 0 then Down else Up) st1)"

subsection \<open>One tick of the game loop (lines 202-233)\<close>

text \<open>The cell in front of \<open>head\<close> in direction \<open>d\<close>, wrapped per axis (lines 207-213).\<close>

definition nextCell :: "cell \<Rightarrow> Dir \<Rightarrow> cell" where
  "nextCell head d =
     (let v = dirVec d in \<lparr>x = wrap (x head + x v), y = wrap (y head + y v)\<rparr>)"

text \<open>
  The interval callback. Reading \<^verbatim>\<open>prev[0].x\<close> of an empty array throws, which is
  the result \<open>Inl TypeError\<close>; a food respawn that never returns is \<open>None\<close>.

  The callback reads \<^verbatim>\<open>nextDir\<close>, \<^verbatim>\<open>food\<close>, \<^verbatim>\<open>score\<close> and (inside \<^verbatim>\<open>die\<close>)
  \<^verbatim>\<open>best\<close> from its closure. The effect that installs it is re-run whenever
  \<^verbatim>\<open>nextDir\<close>, \<^verbatim>\<open>food\<close> or \<^verbatim>\<open>dead\<close> changes, the score changes only together with
  the food and the best score only together with \<^verbatim>\<open>dead\<close>, so the closure holds the
  current values and the model reads them from the state.
\<close>

definition tick :: "(nat \<Rightarrow> real) \<Rightarrow> game \<Rightarrow> (error + game) option" where
  "tick rnd st =
     (let prev = snake st;
          d = nextDir st;
          st1 = st\<lparr>dir := d\<rparr>
      in case prev of
           [] \<Rightarrow> Some (Inl TypeError)
         | head # _ \<Rightarrow>
             let next = nextCell head d
             in if list_ex (\<lambda>c. same c next) prev then Some (Inr (die (score st) st1))
                else
                  let ate = same next (food st);
                      newSnake = next # prev
                  in if ate
                     then (case spawnFood rnd (randomCalls st) newSnake of
                             None \<Rightarrow> None
                           | Some (f, n) \<Rightarrow>
                               Some (Inr (st1\<lparr>score := score st + 1, food := f,
                                              randomCalls := n, snake := newSnake\<rparr>)))
                     else Some (Inr (st1\<lparr>snake := butlast newSnake\<rparr>)))"

subsection \<open>Events\<close>

text \<open>
  What can happen to the component. The interval exists only while the game is
  running, not paused and not dead (lines 195-198); the start button is disabled
  while running and not dead, the pause button while not running or dead
  (lines 295-299). An event that cannot fire leaves the state as it is.
\<close>

datatype event =
    KeyDown string
  | TouchStart real real
  | TouchEnd real real
  | Tick
  | ClickStart
  | ClickPause
  | ClickRestart

definition step ::
  "(real \<Rightarrow> real \<Rightarrow> real) \<Rightarrow> (nat \<Rightarrow> real) \<Rightarrow> event \<Rightarrow> game \<Rightarrow> (error + game) option" where
  "step fsub rnd ev st =
     (case ev of
        KeyDown key \<Rightarrow> map_option Inr (onKey rnd key st)
      | TouchStart px py \<Rightarrow> Some (Inr (onTouchStart (px, py) st))
      | TouchEnd px py \<Rightarrow> Some (Inr (onTouchEnd fsub (px, py) st))
      | Tick \<Rightarrow> (if \<not> running st \<or> paused st \<or> dead st then Some (Inr st) else tick rnd st)
      | ClickStart \<Rightarrow> Some (Inr (if running st \<and> \<not> dead st then st else startGame st))
      | ClickPause \<Rightarrow> Some (Inr (if \<not> running st \<or> dead st then st else togglePause st))
      | ClickRestart \<Rightarrow> map_option Inr (restart rnd st))"

text \<open>The states the component can be in after finitely many events.\<close>

inductive reachable :: "(real \<Rightarrow> real \<Rightarrow> real) \<Rightarrow> (nat \<Rightarrow> real) \<Rightarrow> game \<Rightarrow> bool"
  for fsub :: "real \<Rightarrow> real \<Rightarrow> real" and rnd :: "nat \<Rightarrow> real" where
  reachable_initial: "reachable fsub rnd (initial stored)"
| reachable_step: "reachable fsub rnd st \<Longrightarrow> step fsub rnd ev st = Some (Inr st') \<Longrightarrow> reachable fsub rnd st'"

text \<open>
  A session: the events one after the other, stopping at the first callback that
  throws or does not return.
\<close>

fun run ::
  "(real \<Rightarrow> real \<Rightarrow> real) \<Rightarrow> (nat \<Rightarrow> real) \<Rightarrow> event list \<Rightarrow> game \<Rightarrow> (error + game) option" where
  "run fsub rnd [] st = Some (Inr st)"
| "run fsub rnd (ev # evs) st =
     (case step fsub rnd ev st of
        None \<Rightarrow> None
      | Some (Inl e) \<Rightarrow> Some (Inl e)
      | Some (Inr st') \<Rightarrow> run fsub rnd evs st')"

subsection \<open>A full grid\<close>

text \<open>
  An example state for the theorems below, not part of the component: the running game
  one meal before the grid is full. The snake has 323 cells. Its head is at \<open>(1,0)\<close>
  and it moves left; the body runs along row 0 to the right edge and then back and
  forth through the rows 1 to 17. The food lies on the only free cell \<open>(0,0)\<close>, in
  front of the head, and the score is 320. \<open>halfDraws\<close> is a generator that returns
  0.5 on every call.
\<close>

definition fullGridSnake :: "cell list" where
  "fullGridSnake =
     map (\<lambda>i. \<lparr>x = i, y = 0\<rparr>) [1..17]
     @ concat (map (\<lambda>j. map (\<lambda>i. \<lparr>x = (if even j then i else 17 - i), y = j\<rparr>) [0..17]) [1..17])"



text \<open>The lifecycle flags are consistent when a dead game neither runs nor is paused.\<close>

abbreviation flags_ok :: "game \<Rightarrow> bool" where
  "flags_ok st \<equiv> dead st \<longrightarrow> \<not> running st \<and> \<not> paused st"

subsection \<open>The wrap function\<close>

text \<open>
  Claim C4. \<open>wrap n\<close> is \<open>GRID - 1\<close> for a negative \<open>n\<close>, \<open>0\<close> for \<open>n \<ge> GRID\<close> and
  \<open>n\<close> itself otherwise; so for every integer \<open>n\<close> wrapping twice is wrapping once,
  and the result lies in \<open>0 ..< GRID\<close>.
\<close>

theorem wrap_cases_idempotent_in_range:
  "wrap n = (if n < 0 then GRID - 1 else if n \<ge> GRID then 0 else n)
   \<and> wrap (wrap n) = wrap n
   \<and> 0 \<le> wrap n \<and> wrap n < GRID"
  by (simp add: wrap_def GRID_def)

subsection \<open>Food placement returns a free cell\<close>

text \<open>
  Cells are equal exactly when \<open>same\<close> holds, so the scan
  \<^verbatim>\<open>s.some((c) => same(c, f))\<close> is membership in the list.
\<close>

lemma same_iff_eq: "same a b \<longleftrightarrow> a = b" for a b :: cell
  by (cases a, cases b) (simp add: same_def)

lemma list_ex_same_iff: "list_ex (\<lambda>c. same c f) s \<longleftrightarrow> f \<in> set s" for f :: cell
  by (auto simp add: list_ex_iff same_iff_eq)

lemma spawnFood_unfold:
  "spawnFood rnd i s =
     (if randomCell rnd i \<notin> set s then Some (randomCell rnd i, i + 2)
      else spawnFood rnd (i + 2) s)"
  by (subst spawnFood.simps) (simp add: Let_def list_ex_same_iff)

lemma spawnFood_result:
  assumes "spawnFood rnd i s = Some r"
  shows "fst r \<notin> set s \<and> (\<exists>k. fst r = randomCell rnd (i + 2 * k) \<and> snd r = i + 2 * k + 2)"
proof (rule spawnFood.raw_induct
    [where P = "\<lambda>rnd i s r. fst r \<notin> set s \<and>
                  (\<exists>k. fst r = randomCell rnd (i + 2 * k) \<and> snd r = i + 2 * k + 2)",
     OF _ assms])
  fix spawnFood' :: "(nat \<Rightarrow> real) \<Rightarrow> nat \<Rightarrow> cell list \<Rightarrow> (cell \<times> nat) option"
  fix rnd' i' s' r'
  assume IH: "\<And>rnd i s r. spawnFood' rnd i s = Some r \<Longrightarrow>
                fst r \<notin> set s \<and> (\<exists>k. fst r = randomCell rnd (i + 2 * k) \<and> snd r = i + 2 * k + 2)"
  assume body: "(let f = randomCell rnd' i'
                 in if \<not> list_ex (\<lambda>c. same c f) s' then Some (f, i' + 2)
                    else spawnFood' rnd' (i' + 2) s') = Some r'"
  show "fst r' \<notin> set s' \<and> (\<exists>k. fst r' = randomCell rnd' (i' + 2 * k) \<and> snd r' = i' + 2 * k + 2)"
  proof (cases "randomCell rnd' i' \<in> set s'")
    case False
    with body have "r' = (randomCell rnd' i', i' + 2)"
      by (simp add: Let_def list_ex_same_iff)
    with False show ?thesis
      by (auto intro: exI [of _ 0])
  next
    case True
    with body have "spawnFood' rnd' (i' + 2) s' = Some r'"
      by (simp add: Let_def list_ex_same_iff)
    from IH [OF this] obtain k where
      "fst r' \<notin> set s'" "fst r' = randomCell rnd' (i' + 2 + 2 * k)" "snd r' = i' + 2 + 2 * k + 2"
      by blast
    then show ?thesis
      by (auto intro: exI [of _ "Suc k"])
  qed
qed

lemma spawnFood_off_snake: "spawnFood rnd i s = Some (f, n) \<Longrightarrow> f \<notin> set s"
  using spawnFood_result [of rnd i s "(f, n)"] by simp

lemma spawnFood_returns:
  "randomCell rnd (i + 2 * k) \<notin> set s \<Longrightarrow> \<exists>f n. spawnFood rnd i s = Some (f, n)"
proof (induction k arbitrary: i)
  case 0
  then show ?case
    by (subst spawnFood_unfold) simp
next
  case (Suc k)
  show ?case
  proof (cases "randomCell rnd i \<in> set s")
    case False
    then show ?thesis
      by (subst spawnFood_unfold) simp
  next
    case True
    from Suc.prems have "randomCell rnd (i + 2 + 2 * k) \<notin> set s"
      by (simp add: add.assoc)
    from Suc.IH [OF this] obtain f n where "spawnFood rnd (i + 2) s = Some (f, n)"
      by blast
    with True show ?thesis
      by (subst spawnFood_unfold) simp
  qed
qed


subsection \<open>Direction requests\<close>

lemma onKey_arrow:
  "onKey rnd ''ArrowUp'' st = Some (setNextDirection Up st)"
  "onKey rnd ''ArrowDown'' st = Some (setNextDirection Down st)"
  "onKey rnd ''ArrowLeft'' st = Some (setNextDirection Left st)"
  "onKey rnd ''ArrowRight'' st = Some (setNextDirection Right st)"
  by (simp_all add: onKey_def toLowerCase_def)

text \<open>
  What the code does: a request is dropped exactly when it is opposite to the queued
  direction \<open>nextDir\<close>; any other request replaces \<open>nextDir\<close>. The committed direction
  \<open>dir\<close> is not read and not changed. The four arrow keys and a swipe of at least 14
  pixels on its longer axis all go through this one updater.
\<close>

lemma setNextDirection_tests_queue:
  "nextDir (setNextDirection r st) = (if isOpposite (nextDir st) r then nextDir st else r)"
  "dir (setNextDirection r st) = dir st"
  "startPt st = Some p \<Longrightarrow> 14 \<le> max \<bar>fsub (fst t) (fst p)\<bar> \<bar>fsub (snd t) (snd p)\<bar> \<Longrightarrow>
     onTouchEnd fsub t st =
       setNextDirection
         (if \<bar>fsub (fst t) (fst p)\<bar> > \<bar>fsub (snd t) (snd p)\<bar>
          then (if fsub (fst t) (fst p) > 0 then Right else Left)
          else (if fsub (snd t) (snd p) > 0 then Down else Up))
         (st\<lparr>startPt := None\<rparr>)"
  by (auto simp add: setNextDirection_def onTouchEnd_def Let_def)

text \<open>
  Claim C1. The claim asks that a request opposite to the committed direction \<open>dir\<close>
  leaves \<open>nextDir\<close> unchanged. The code fails it. From the first render, after the key
  \<^verbatim>\<open>s\<close> and one request for up, the committed direction is still right and the queue
  holds up; a request for left is opposite to the committed direction, and it is taken:
  \<open>nextDir\<close> becomes left. The next tick turns the snake by 180 degrees onto its own
  second cell, and the game is over.
\<close>

theorem reversal_request_accepted:
  "dir (setNextDirection Up (startGame (initial stored))) = Right
   \<and> nextDir (setNextDirection Up (startGame (initial stored))) = Up
   \<and> isOpposite (dir (setNextDirection Up (startGame (initial stored)))) Left
   \<and> onKey rnd ''ArrowLeft'' (setNextDirection Up (startGame (initial stored)))
       = Some (setNextDirection Left (setNextDirection Up (startGame (initial stored))))
   \<and> nextDir (setNextDirection Left (setNextDirection Up (startGame (initial stored)))) = Left
   \<and> run fsub rnd [KeyDown ''s'', KeyDown ''ArrowUp'', KeyDown ''ArrowLeft'', Tick] (initial stored)
       = Some (Inr (die 0 ((setNextDirection Left (setNextDirection Up (startGame (initial stored))))
                             \<lparr>dir := Left\<rparr>)))
   \<and> dead (die 0 ((setNextDirection Left (setNextDirection Up (startGame (initial stored))))
                    \<lparr>dir := Left\<rparr>))"
proof -
  let ?s1 = "startGame (initial stored)"
  let ?s2 = "setNextDirection Up ?s1"
  let ?s3 = "setNextDirection Left ?s2"
  have fields: "dir ?s2 = Right" "nextDir ?s2 = Up" "nextDir ?s3 = Left"
    by (simp_all add: setNextDirection_def startGame_def initial_def isOpposite_def)
  then have opp: "isOpposite (dir ?s2) Left"
    by (simp add: isOpposite_def)
  have e1: "step fsub rnd (KeyDown ''s'') (initial stored) = Some (Inr ?s1)"
    by (simp add: step_def onKey_def toLowerCase_def)
  have e2: "step fsub rnd (KeyDown ''ArrowUp'') ?s1 = Some (Inr ?s2)"
    by (simp add: step_def onKey_arrow)
  have e3: "step fsub rnd (KeyDown ''ArrowLeft'') ?s2 = Some (Inr ?s3)"
    by (simp add: step_def onKey_arrow)
  have e4: "step fsub rnd Tick ?s3 = Some (Inr (die 0 (?s3\<lparr>dir := Left\<rparr>)))"
    by (simp add: step_def tick_def Let_def nextCell_def dirVec_def wrap_def GRID_def same_def
        startGame_def setNextDirection_def isOpposite_def initial_def)
  have session: "run fsub rnd [KeyDown ''s'', KeyDown ''ArrowUp'', KeyDown ''ArrowLeft'', Tick]
      (initial stored) = Some (Inr (die 0 (?s3\<lparr>dir := Left\<rparr>)))"
    by (simp add: e1 e2 e3 e4)
  have over: "dead (die 0 (?s3\<lparr>dir := Left\<rparr>))"
    by (simp add: die_def Let_def)
  from fields opp session over show ?thesis
    by (simp add: onKey_arrow)
qed

text \<open>The same session with nothing in storage and a generator that always returns 0.\<close>

theorem reversal_request_accepted_witness:
  "isOpposite (dir (setNextDirection Up (startGame (initial None)))) Left
   \<and> nextDir (setNextDirection Left (setNextDirection Up (startGame (initial None)))) = Left
   \<and> run (-) (\<lambda>_. 0) [KeyDown ''s'', KeyDown ''ArrowUp'', KeyDown ''ArrowLeft'', Tick] (initial None)
       = Some (Inr (die 0 ((setNextDirection Left (setNextDirection Up (startGame (initial None))))
                             \<lparr>dir := Left\<rparr>)))
   \<and> dead (die 0 ((setNextDirection Left (setNextDirection Up (startGame (initial None))))
                    \<lparr>dir := Left\<rparr>))"
  using reversal_request_accepted [of None "\<lambda>_. 0" "(-)"]
  by blast

subsection \<open>Speed and tick period\<close>

text \<open>
  For integers the floor of the real quotient is integer division, so both
  definitions can be read over \<open>int\<close>. The speed is odd, hence never \<open>0\<close>, and the
  quotient \<^verbatim>\<open>1000 / speed\<close> is always a division by a non-zero number.
\<close>

lemma speed_eq_div: "speed sc = 9 + (sc div 5) * 2"
proof -
  have "\<lfloor>real_of_int sc / 5\<rfloor> = sc div 5"
    using floor_divide_of_int_eq [of sc 5, where ?'a = real] by simp
  then show ?thesis by (simp add: speed_def)
qed

lemma tickMs_eq_div: "tickMs sp = max 55 (1000 div sp)"
proof -
  have "\<lfloor>1000 / real_of_int sp\<rfloor> = 1000 div sp"
    using floor_divide_of_int_eq [of 1000 sp, where ?'a = real] by simp
  then show ?thesis by (simp add: tickMs_def)
qed

lemma speed_odd: "speed sc \<noteq> 0"
  unfolding speed_eq_div by presburger

text \<open>
  Claim C8, as amended. The tick period is \<open>max 55 (1000 div speed)\<close> with
  \<open>speed = 9 + (score div 5) * 2\<close>. It changes only when the score reaches a multiple
  of 5; it does change at every such step from a score between 0 and 24; and from
  score 25 on it stays at the floor of 55 milliseconds.
\<close>

theorem tickMs_period:
  "tickMs (speed sc) = max 55 (1000 div (9 + (sc div 5) * 2))
   \<and> (tickMs (speed (sc + 1)) \<noteq> tickMs (speed sc) \<longrightarrow> (sc + 1) mod 5 = 0)
   \<and> (0 \<le> sc \<and> sc < 25 \<and> (sc + 1) mod 5 = 0 \<longrightarrow> tickMs (speed (sc + 1)) \<noteq> tickMs (speed sc))
   \<and> (25 \<le> sc \<longrightarrow> tickMs (speed sc) = 55)"
proof (intro conjI impI)
  show "tickMs (speed sc) = max 55 (1000 div (9 + (sc div 5) * 2))"
    by (simp add: speed_eq_div tickMs_eq_div)
next
  assume changed: "tickMs (speed (sc + 1)) \<noteq> tickMs (speed sc)"
  show "(sc + 1) mod 5 = 0"
  proof (rule ccontr)
    assume "(sc + 1) mod 5 \<noteq> 0"
    then have "(sc + 1) div 5 = sc div 5" by presburger
    then have "speed (sc + 1) = speed sc" by (simp add: speed_eq_div)
    with changed show False by simp
  qed
next
  assume "0 \<le> sc \<and> sc < 25 \<and> (sc + 1) mod 5 = 0"
  then have "sc = 4 \<or> sc = 9 \<or> sc = 14 \<or> sc = 19 \<or> sc = 24" by presburger
  then show "tickMs (speed (sc + 1)) \<noteq> tickMs (speed sc)"
    by (auto simp add: speed_eq_div tickMs_eq_div)
next
  assume "25 \<le> sc"
  then have "5 \<le> sc div 5" by presburger
  then have "19 \<le> speed sc" by (simp add: speed_eq_div)
  then have "1000 div speed sc \<le> 1000 div 19"
    by (intro zdiv_mono2) simp_all
  then show "tickMs (speed sc) = 55"
    by (simp add: tickMs_eq_div)
qed

text \<open>From score 4 to 5 the period drops from 111 to 90; at score 40 it is 55.\<close>

theorem tickMs_period_witness:
  "(tickMs (speed (4 + 1)) \<noteq> tickMs (speed 4) \<and> ((4::int) + 1) mod 5 = 0)
   \<and> tickMs (speed 4) = 111 \<and> tickMs (speed 5) = 90
   \<and> ((25::int) \<le> 40 \<and> tickMs (speed 40) = 55)"
  using tickMs_period [of 4] tickMs_period [of 40] tickMs_period [of 5]
  by simp

text \<open>
  From score 29 to score 30 the score reaches a multiple of 5 and the speed grows
  from 19 to 21, but the period is 55 before and after.
\<close>

theorem period_crossing_counterexample:
  "\<not> ((tickMs (speed (29 + 1)) \<noteq> tickMs (speed 29)) = (((29::int) + 1) mod 5 = 0))"
  by (simp add: speed_eq_div tickMs_eq_div)

subsection \<open>The tick: death, growth and plain moves\<close>

text \<open>
  With a non-empty snake the callback has three outcomes, selected by where the cell
  in front of the head lies: on the snake, on the food, or elsewhere.
\<close>

lemma tick_nonempty:
  assumes "snake st = head # body"
  shows "tick rnd st =
     (if nextCell head (nextDir st) \<in> set (snake st)
      then Some (Inr (die (score st) (st\<lparr>dir := nextDir st\<rparr>)))
      else if nextCell head (nextDir st) = food st
      then (case spawnFood rnd (randomCalls st) (nextCell head (nextDir st) # snake st) of
              None \<Rightarrow> None
            | Some (f, n) \<Rightarrow>
                Some (Inr (st\<lparr>dir := nextDir st, score := score st + 1, food := f,
                             randomCalls := n, snake := nextCell head (nextDir st) # snake st\<rparr>)))
      else Some (Inr (st\<lparr>dir := nextDir st,
                         snake := nextCell head (nextDir st) # butlast (snake st)\<rparr>)))"
proof -
  have scan: "list_ex (\<lambda>c. c = n) (snake st) \<longleftrightarrow> n \<in> set (snake st)" for n :: cell
    by (auto simp add: list_ex_iff)
  have pop: "butlast (n # snake st) = n # butlast (snake st)" for n
    using assms by simp
  have "tick rnd st =
     (case snake st of
        [] \<Rightarrow> Some (Inl TypeError)
      | head # _ \<Rightarrow>
          if list_ex (\<lambda>c. same c (nextCell head (nextDir st))) (snake st)
          then Some (Inr (die (score st) (st\<lparr>dir := nextDir st\<rparr>)))
          else if same (nextCell head (nextDir st)) (food st)
          then (case spawnFood rnd (randomCalls st) (nextCell head (nextDir st) # snake st) of
                  None \<Rightarrow> None
                | Some (f, n) \<Rightarrow>
                    Some (Inr (st\<lparr>dir := nextDir st, score := score st + 1, food := f,
                                 randomCalls := n,
                                 snake := nextCell head (nextDir st) # snake st\<rparr>)))
          else Some (Inr (st\<lparr>dir := nextDir st,
                             snake := butlast (nextCell head (nextDir st) # snake st)\<rparr>)))"
    unfolding tick_def Let_def by (rule refl)
  then show ?thesis
    unfolding assms list.case pop same_iff_eq scan [unfolded assms] by simp
qed

lemma die_fields:
  "dead (die fs st)" "\<not> running (die fs st)" "\<not> paused (die fs st)"
  "snake (die fs st) = snake st" "food (die fs st) = food st" "score (die fs st) = score st"
  "best (die fs st) = max (best st) fs"
  by (simp_all add: die_def Let_def)

text \<open>
  Claim C2. When the cell in front of the head, in the direction that this tick
  commits, is a cell of the snake as it is before the move (head included), the tick
  returns a state that is dead, not running and not paused, with the snake unchanged.
  In particular the snake \<open>[(0,9), (17,9), (16,9)]\<close> moving left wraps to \<open>(17,9)\<close>,
  its own second cell, and dies with the snake unchanged.
\<close>

theorem tick_death:
  "(snake st = head # body \<and> nextCell head (nextDir st) \<in> set (snake st) \<longrightarrow>
      (\<exists>st'. tick rnd st = Some (Inr st') \<and> dead st' \<and> snake st' = snake st
             \<and> \<not> running st' \<and> \<not> paused st'))
   \<and> (snake st = [\<lparr>x = 0, y = 9\<rparr>, \<lparr>x = 17, y = 9\<rparr>, \<lparr>x = 16, y = 9\<rparr>] \<and> nextDir st = Left \<longrightarrow>
      nextCell \<lparr>x = 0, y = 9\<rparr> Left = \<lparr>x = 17, y = 9\<rparr>
      \<and> (\<exists>st'. tick rnd st = Some (Inr st') \<and> dead st' \<and> snake st' = snake st
             \<and> \<not> running st'))"
proof (rule conjI; rule impI)
  assume "snake st = head # body \<and> nextCell head (nextDir st) \<in> set (snake st)"
  then have sn: "snake st = head # body" and hit: "nextCell head (nextDir st) \<in> set (snake st)"
    by blast+
  from tick_nonempty [OF sn, of rnd] hit
  have "tick rnd st = Some (Inr (die (score st) (st\<lparr>dir := nextDir st\<rparr>)))"
    by (simp only: if_True)
  then show "\<exists>st'. tick rnd st = Some (Inr st') \<and> dead st' \<and> snake st' = snake st
             \<and> \<not> running st' \<and> \<not> paused st'"
    by (simp add: die_fields)
next
  assume scen: "snake st = [\<lparr>x = 0, y = 9\<rparr>, \<lparr>x = 17, y = 9\<rparr>, \<lparr>x = 16, y = 9\<rparr>] \<and> nextDir st = Left"
  have nc: "nextCell \<lparr>x = 0, y = 9\<rparr> Left = \<lparr>x = 17, y = 9\<rparr>"
    by (simp add: nextCell_def dirVec_def wrap_def GRID_def)
  from scen have sn: "snake st = \<lparr>x = 0, y = 9\<rparr> # [\<lparr>x = 17, y = 9\<rparr>, \<lparr>x = 16, y = 9\<rparr>]"
    and nd: "nextDir st = Left"
    by blast+
  from nc sn nd have hit: "nextCell \<lparr>x = 0, y = 9\<rparr> (nextDir st) \<in> set (snake st)"
    by simp
  from tick_nonempty [OF sn, of rnd] hit
  have "tick rnd st = Some (Inr (die (score st) (st\<lparr>dir := nextDir st\<rparr>)))"
    by (simp only: if_True)
  with nc show "nextCell \<lparr>x = 0, y = 9\<rparr> Left = \<lparr>x = 17, y = 9\<rparr>
      \<and> (\<exists>st'. tick rnd st = Some (Inr st') \<and> dead st' \<and> snake st' = snake st
             \<and> \<not> running st')"
    by (simp add: die_fields)
qed

text \<open>
  The snake of the first render with left queued: the cell in front of \<open>(9,9)\<close> is
  \<open>(8,9)\<close>, the snake's second cell, and the tick ends the game.
\<close>

theorem tick_death_witness:
  "snake ((initial None)\<lparr>running := True, nextDir := Left\<rparr>)
     = \<lparr>x = 9, y = 9\<rparr> # [\<lparr>x = 8, y = 9\<rparr>, \<lparr>x = 7, y = 9\<rparr>]
   \<and> nextCell \<lparr>x = 9, y = 9\<rparr> (nextDir ((initial None)\<lparr>running := True, nextDir := Left\<rparr>))
       \<in> set (snake ((initial None)\<lparr>running := True, nextDir := Left\<rparr>))
   \<and> (\<exists>st'. tick (\<lambda>_. 0) ((initial None)\<lparr>running := True, nextDir := Left\<rparr>) = Some (Inr st')
        \<and> dead st' \<and> snake st' = [\<lparr>x = 9, y = 9\<rparr>, \<lparr>x = 8, y = 9\<rparr>, \<lparr>x = 7, y = 9\<rparr>]
        \<and> \<not> running st' \<and> \<not> paused st')"
  using tick_death [of "(initial None)\<lparr>running := True, nextDir := Left\<rparr>"
      "\<lparr>x = 9, y = 9\<rparr>" "[\<lparr>x = 8, y = 9\<rparr>, \<lparr>x = 7, y = 9\<rparr>]" "\<lambda>_. 0"]
  by (simp add: initial_def nextCell_def dirVec_def wrap_def GRID_def)








lemma fullGridSnake_length: "length fullGridSnake = 323"
  by (simp add: fullGridSnake_def length_concat comp_def sum_list_triv del: upto_rec_numeral)






subsection \<open>The head never steps onto itself\<close>

lemma nextCell_neq: "nextCell c d \<noteq> c"
  by (cases c; cases d) (simp_all add: nextCell_def dirVec_def wrap_def GRID_def Let_def)

text \<open>
  Claim C10. For every cell \<open>c\<close> (on the grid or not) and every direction, the
  wrapped step from \<open>c\<close> is a cell other than \<open>c\<close>. So the collision scan never
  matches the head cell, and a tick of a one-cell snake never takes the death branch:
  it leaves \<open>dead\<close> as it is, and it is a plain move or a meal.
\<close>

theorem step_leaves_cell:
  "nextCell c d \<noteq> c
   \<and> \<not> same c (nextCell c d)
   \<and> \<not> list_ex (\<lambda>e. same e (nextCell c d)) [c]
   \<and> (snake st = [c] \<longrightarrow>
        tick rnd st \<noteq> Some (Inr (die (score st) (st\<lparr>dir := nextDir st\<rparr>)))
        \<and> (\<forall>st'. tick rnd st = Some (Inr st') \<longrightarrow> dead st' = dead st)
        \<and> (nextCell c (nextDir st) \<noteq> food st \<longrightarrow>
             tick rnd st = Some (Inr (st\<lparr>dir := nextDir st, snake := [nextCell c (nextDir st)]\<rparr>)))
        \<and> (nextCell c (nextDir st) = food st
             \<and> randomCell rnd (randomCalls st + 2 * k) \<notin> set [nextCell c (nextDir st), c] \<longrightarrow>
             (\<exists>st'. tick rnd st = Some (Inr st') \<and> dead st' = dead st)))"
proof (intro conjI impI allI)
  show "nextCell c d \<noteq> c"
    by (rule nextCell_neq)
  then show "\<not> same c (nextCell c d)"
    by (simp add: same_iff_eq)
  then show "\<not> list_ex (\<lambda>e. same e (nextCell c d)) [c]"
    by simp
next
  assume sn: "snake st = [c]"
  have miss: "nextCell c (nextDir st) \<notin> set (snake st)"
    using nextCell_neq [of c "nextDir st"] sn by simp
  note tk = tick_nonempty [OF sn, of rnd]
  show "tick rnd st \<noteq> Some (Inr (die (score st) (st\<lparr>dir := nextDir st\<rparr>)))"
  proof
    assume "tick rnd st = Some (Inr (die (score st) (st\<lparr>dir := nextDir st\<rparr>)))"
    with tk miss sn have "snake (die (score st) (st\<lparr>dir := nextDir st\<rparr>)) \<noteq> [c]"
      by (auto split: if_splits option.splits)
    then show False
      by (simp add: die_fields sn)
  qed
  {
    fix st'
    assume "tick rnd st = Some (Inr st')"
    with tk miss show "dead st' = dead st"
      by (auto split: if_splits option.splits)
  }
  {
    assume "nextCell c (nextDir st) \<noteq> food st"
    with tk miss sn show "tick rnd st = Some (Inr (st\<lparr>dir := nextDir st, snake := [nextCell c (nextDir st)]\<rparr>))"
      by simp
  }
  {
    assume "nextCell c (nextDir st) = food st
             \<and> randomCell rnd (randomCalls st + 2 * k) \<notin> set [nextCell c (nextDir st), c]"
    then have ate: "nextCell c (nextDir st) = food st"
      and "randomCell rnd (randomCalls st + 2 * k) \<notin> set (nextCell c (nextDir st) # snake st)"
      unfolding sn by blast+
    from spawnFood_returns [OF this(2)] obtain f n
      where "spawnFood rnd (randomCalls st) (nextCell c (nextDir st) # snake st) = Some (f, n)"
      by blast
    with tk miss ate show "\<exists>st'. tick rnd st = Some (Inr st') \<and> dead st' = dead st"
      by simp
  }
qed

text \<open>A one-cell snake at the right edge, moving right, wraps to column 0 and lives.\<close>

theorem step_leaves_cell_witness:
  "snake ((initial None)\<lparr>snake := [\<lparr>x = 17, y = 0\<rparr>], running := True\<rparr>) = [\<lparr>x = 17, y = 0\<rparr>]
   \<and> nextCell \<lparr>x = 17, y = 0\<rparr> Right = \<lparr>x = 0, y = 0\<rparr>
   \<and> tick (\<lambda>_. 0) ((initial None)\<lparr>snake := [\<lparr>x = 17, y = 0\<rparr>], running := True\<rparr>)
       = Some (Inr ((initial None)\<lparr>snake := [\<lparr>x = 0, y = 0\<rparr>], running := True\<rparr>))"
  using step_leaves_cell [of "\<lparr>x = 17, y = 0\<rparr>" Right
      "(initial None)\<lparr>snake := [\<lparr>x = 17, y = 0\<rparr>], running := True\<rparr>" "\<lambda>_. 0" 0]
  by (simp add: initial_def nextCell_def dirVec_def wrap_def GRID_def)

subsection \<open>Restart, events and sessions\<close>

lemma restart_result:
  assumes "restart rnd st = Some st'"
  shows "snake st' = startSnake" "dir st' = Right" "nextDir st' = Right"
    "food st' \<notin> set startSnake" "score st' = 0"
    "\<not> dead st'" "\<not> paused st'" "\<not> running st'" "best st' = best st"
  using assms spawnFood_off_snake [of rnd "randomCalls st" startSnake]
  by (auto simp add: restart_def split: option.splits)


lemma onKey_cases:
  "onKey rnd key st =
     (if key = ''ArrowUp'' then Some (setNextDirection Up st)
      else if key = ''ArrowDown'' then Some (setNextDirection Down st)
      else if key = ''ArrowLeft'' then Some (setNextDirection Left st)
      else if key = ''ArrowRight'' then Some (setNextDirection Right st)
      else if key = '' '' then Some (togglePause st)
      else if toLowerCase key = ''r'' then restart rnd st
      else if toLowerCase key = ''s'' then Some (startGame st)
      else Some st)"
proof -
  have space: "onKey rnd '' '' st = Some (togglePause st)"
    by (simp add: onKey_def toLowerCase_def)
  have rest: "onKey rnd key st =
      (if toLowerCase key = ''r'' then restart rnd st
       else if toLowerCase key = ''s'' then Some (startGame st)
       else Some st)"
    if "key \<noteq> ''ArrowUp''" "key \<noteq> ''ArrowDown''" "key \<noteq> ''ArrowLeft''"
      "key \<noteq> ''ArrowRight''" "key \<noteq> '' ''"
    unfolding onKey_def Let_def using that
    by (cases "restart rnd st") (simp_all only: if_False if_True option.case split: if_split, simp_all)
  show ?thesis
    using space rest by (simp add: onKey_arrow)
qed

lemma onTouchEnd_cases:
  "onTouchEnd fsub t st = st \<or> onTouchEnd fsub t st = st\<lparr>startPt := None\<rparr>
   \<or> (\<exists>d. onTouchEnd fsub t st = setNextDirection d (st\<lparr>startPt := None\<rparr>))"
  by (cases "startPt st") (auto simp add: onTouchEnd_def Let_def)

text \<open>What one event can do to the state.\<close>

lemma step_result:
  assumes "step fsub rnd ev st = Some (Inr st')"
  shows "st' = st
    \<or> (\<exists>d. st' = setNextDirection d st)
    \<or> (\<exists>t. st' = st\<lparr>startPt := t\<rparr>)
    \<or> (\<exists>d. st' = setNextDirection d (st\<lparr>startPt := None\<rparr>))
    \<or> st' = togglePause st
    \<or> st' = startGame st
    \<or> restart rnd st = Some st'
    \<or> (ev = Tick \<and> running st \<and> \<not> paused st \<and> \<not> dead st \<and> tick rnd st = Some (Inr st'))"
proof (cases ev)
  case (KeyDown key)
  with assms have ok: "onKey rnd key st = Some st'"
    by (auto simp add: step_def)
  show ?thesis
  proof (cases "key = ''ArrowUp'' \<or> key = ''ArrowDown'' \<or> key = ''ArrowLeft'' \<or> key = ''ArrowRight''")
    case True
    with ok have "\<exists>d. st' = setNextDirection d st"
      by (auto simp add: onKey_arrow)
    then show ?thesis by blast
  next
    case False
    with ok have "st' = togglePause st \<or> restart rnd st = Some st' \<or> st' = startGame st \<or> st' = st"
      unfolding onKey_cases by (simp split: if_splits)
    then show ?thesis by blast
  qed
next
  case (TouchStart px py)
  with assms have "st' = st\<lparr>startPt := Some (px, py)\<rparr>"
    by (simp add: step_def onTouchStart_def)
  then show ?thesis by blast
next
  case (TouchEnd px py)
  with assms have "st' = onTouchEnd fsub (px, py) st"
    by (simp add: step_def)
  with onTouchEnd_cases [of fsub "(px, py)" st] show ?thesis
    by metis
next
  case Tick
  with assms have "st' = st \<or> (running st \<and> \<not> paused st \<and> \<not> dead st \<and> tick rnd st = Some (Inr st'))"
    by (simp add: step_def split: if_splits)
  with Tick show ?thesis by blast
next
  case ClickStart
  with assms have "st' = st \<or> st' = startGame st"
    by (simp add: step_def split: if_splits)
  then show ?thesis by blast
next
  case ClickPause
  with assms have "st' = st \<or> st' = togglePause st"
    by (simp add: step_def split: if_splits)
  then show ?thesis by blast
next
  case ClickRestart
  with assms have "restart rnd st = Some st'"
    by (auto simp add: step_def)
  then show ?thesis by blast
qed

text \<open>The three ways a tick can return a state.\<close>

lemma tick_result:
  assumes "tick rnd st = Some (Inr st')"
  obtains (death) head body where "snake st = head # body"
      "nextCell head (nextDir st) \<in> set (snake st)"
      "st' = die (score st) (st\<lparr>dir := nextDir st\<rparr>)"
  | (meal) head body f n where "snake st = head # body"
      "nextCell head (nextDir st) \<notin> set (snake st)"
      "nextCell head (nextDir st) = food st"
      "spawnFood rnd (randomCalls st) (nextCell head (nextDir st) # snake st) = Some (f, n)"
      "st' = st\<lparr>dir := nextDir st, score := score st + 1, food := f, randomCalls := n,
                snake := nextCell head (nextDir st) # snake st\<rparr>"
  | (move) head body where "snake st = head # body"
      "nextCell head (nextDir st) \<notin> set (snake st)"
      "nextCell head (nextDir st) \<noteq> food st"
      "st' = st\<lparr>dir := nextDir st, snake := nextCell head (nextDir st) # butlast (snake st)\<rparr>"
proof (cases "snake st")
  case Nil
  with assms show ?thesis
    by (simp add: tick_def)
next
  case (Cons head body)
  note tk = tick_nonempty [OF Cons, of rnd]
  show ?thesis
  proof (cases "nextCell head (nextDir st) \<in> set (snake st)")
    case True
    with tk assms have "st' = die (score st) (st\<lparr>dir := nextDir st\<rparr>)"
      by simp
    with Cons True show ?thesis
      by (rule death)
  next
    case False
    show ?thesis
    proof (cases "nextCell head (nextDir st) = food st")
      case ate: True
      with tk False assms obtain f n where
        "spawnFood rnd (randomCalls st) (nextCell head (nextDir st) # snake st) = Some (f, n)"
        "st' = st\<lparr>dir := nextDir st, score := score st + 1, food := f, randomCalls := n,
                snake := nextCell head (nextDir st) # snake st\<rparr>"
        by (auto split: option.splits)
      with Cons False ate show ?thesis
        by (rule meal)
    next
      case other: False
      with tk False assms
      have "st' = st\<lparr>dir := nextDir st, snake := nextCell head (nextDir st) # butlast (snake st)\<rparr>"
        by simp
      with Cons False other show ?thesis
        by (rule move)
    qed
  qed
qed

lemma tick_keeps_food_off:
  assumes "tick rnd st = Some (Inr st')" and "food st \<notin> set (snake st)"
  shows "food st' \<notin> set (snake st')"
  using assms(1)
proof (cases rule: tick_result)
  case (death head body)
  with assms(2) show ?thesis
    by (simp add: die_fields)
next
  case (meal head body f n)
  from spawnFood_off_snake [OF meal(4)] meal(5) show ?thesis
    by simp
next
  case (move head body)
  with assms(2) show ?thesis
    by (auto dest: in_set_butlastD)
qed

lemma request_fields:
  "snake (setNextDirection d st) = snake st" "food (setNextDirection d st) = food st"
  "best (setNextDirection d st) = best st" "dead (setNextDirection d st) = dead st"
  "running (setNextDirection d st) = running st" "paused (setNextDirection d st) = paused st"
  by (simp_all add: setNextDirection_def)

text \<open>
  Every event is a restart, a tick of the running game, or a quiet event that leaves
  snake, food and best score alone and keeps the lifecycle flags consistent.
\<close>

lemma step_frame:
  assumes "step fsub rnd ev st = Some (Inr st')"
  obtains (quiet) "snake st' = snake st" "food st' = food st" "best st' = best st"
      "flags_ok st \<Longrightarrow> flags_ok st'" "dead st' \<Longrightarrow> dead st"
  | (restart) "restart rnd st = Some st'"
  | (tick) "ev = Tick" "running st" "\<not> paused st" "\<not> dead st" "tick rnd st = Some (Inr st')"
  using step_result [OF assms]
proof (elim disjE exE conjE)
  assume "st' = st"
  then show ?thesis
    by (intro quiet) simp_all
next
  fix d
  assume "st' = setNextDirection d st"
  then show ?thesis
    by (intro quiet) (simp_all add: request_fields)
next
  fix t
  assume "st' = st\<lparr>startPt := t\<rparr>"
  then show ?thesis
    by (intro quiet) simp_all
next
  fix d
  assume "st' = setNextDirection d (st\<lparr>startPt := None\<rparr>)"
  then show ?thesis
    by (intro quiet) (simp_all add: request_fields)
next
  assume "st' = togglePause st"
  then show ?thesis
    by (intro quiet) (simp_all add: togglePause_def split: if_splits)
next
  assume "st' = startGame st"
  then show ?thesis
    by (intro quiet) (simp_all add: startGame_def)
next
  assume "restart rnd st = Some st'"
  then show ?thesis
    by (rule restart)
next
  assume "ev = Tick" "running st" "\<not> paused st" "\<not> dead st" "tick rnd st = Some (Inr st')"
  then show ?thesis
    by (rule tick)
qed

subsection \<open>Food and snake never share a cell\<close>

lemma step_keeps_food_off:
  assumes "step fsub rnd ev st = Some (Inr st')" and "food st \<notin> set (snake st)"
  shows "food st' \<notin> set (snake st')"
  using assms(1)
proof (cases rule: step_frame)
  case quiet
  with assms(2) show ?thesis
    by simp
next
  case restart
  from restart_result(1,4) [OF this] show ?thesis
    by simp
next
  case tick
  from tick_keeps_food_off [OF tick(5) assms(2)] show ?thesis .
qed

lemma reachable_food_off:
  assumes "reachable fsub rnd st"
  shows "food st \<notin> set (snake st)"
  using assms
proof (induction rule: reachable.induct)
  case (reachable_initial stored)
  show ?case
    by (simp add: initial_def)
next
  case (reachable_step st ev st')
  from step_keeps_food_off [OF reachable_step(2) reachable_step(3)] show ?case .
qed

text \<open>
  Claim C5. Whatever cell the food placement returns is off the snake it was given,
  and it does return once some later draw is off that snake. After a restart, and
  after a tick in which the snake eats, the new food is off the snake of the new
  state. In every state the component can reach, the food is on no cell of the snake.
\<close>

theorem food_off_snake:
  "(spawnFood rnd i s = Some (f, n) \<longrightarrow> f \<notin> set s)
   \<and> (randomCell rnd (i + 2 * k) \<notin> set s \<longrightarrow> (\<exists>f n. spawnFood rnd i s = Some (f, n)))
   \<and> (restart rnd st = Some st' \<longrightarrow> food st' \<notin> set (snake st'))
   \<and> (tick rnd st = Some (Inr st') \<and> score st' = score st + 1 \<longrightarrow> food st' \<notin> set (snake st'))
   \<and> (reachable fsub rnd st \<longrightarrow> food st \<notin> set (snake st))"
proof (intro conjI impI)
  assume "spawnFood rnd i s = Some (f, n)"
  then show "f \<notin> set s"
    by (rule spawnFood_off_snake)
next
  assume "randomCell rnd (i + 2 * k) \<notin> set s"
  then show "\<exists>f n. spawnFood rnd i s = Some (f, n)"
    by (rule spawnFood_returns)
next
  assume "restart rnd st = Some st'"
  from restart_result(1,4) [OF this] show "food st' \<notin> set (snake st')"
    by simp
next
  assume "tick rnd st = Some (Inr st') \<and> score st' = score st + 1"
  then have tk: "tick rnd st = Some (Inr st')" and up: "score st' = score st + 1"
    by blast+
  from tk show "food st' \<notin> set (snake st')"
  proof (cases rule: tick_result)
    case (death head body)
    with up show ?thesis
      by (simp add: die_fields)
  next
    case (meal head body f n)
    from spawnFood_off_snake [OF meal(4)] meal(5) show ?thesis
      by simp
  next
    case (move head body)
    with up show ?thesis
      by simp
  qed
next
  assume "reachable fsub rnd st"
  then show "food st \<notin> set (snake st)"
    by (rule reachable_food_off)
qed

text \<open>
  A generator whose first draw is \<open>(9,9)\<close>, on the start snake, and whose second draw
  is \<open>(0,0)\<close>: the placement rejects the first and returns the second, and the state
  after pressing \<^verbatim>\<open>r\<close> on the first render is reachable with the food at \<open>(0,0)\<close>.
\<close>

theorem food_off_snake_witness:
  "(\<exists>f n. spawnFood (\<lambda>i. if i < 2 then 1 / 2 else 0) 0 startSnake = Some (f, n) \<and> f \<notin> set startSnake)
   \<and> reachable (-) (\<lambda>i. if i < 2 then 1 / 2 else 0)
        ((initial None)\<lparr>food := \<lparr>x = 0, y = 0\<rparr>, randomCalls := 4\<rparr>)
   \<and> food ((initial None)\<lparr>food := \<lparr>x = 0, y = 0\<rparr>, randomCalls := 4\<rparr>)
        \<notin> set (snake ((initial None)\<lparr>food := \<lparr>x = 0, y = 0\<rparr>, randomCalls := 4\<rparr>))"
proof -
  let ?R = "\<lambda>i::nat. if i < 2 then 1 / 2 else (0::real)"
  let ?S = "(initial None)\<lparr>food := \<lparr>x = 0, y = 0\<rparr>, randomCalls := 4\<rparr>"
  have first: "randomCell ?R 0 \<in> set startSnake"
    by (simp add: randomCell_def GRID_def startSnake_def)
  have second: "randomCell ?R (0 + 2 * 1) \<notin> set startSnake"
    by (simp add: randomCell_def GRID_def startSnake_def)
  have sp: "spawnFood ?R 0 startSnake = Some (\<lparr>x = 0, y = 0\<rparr>, 4)"
    using first second
    by (subst spawnFood_unfold, simp, subst spawnFood_unfold) (simp add: randomCell_def GRID_def)
  have rc: "randomCalls (initial None) = 0"
    by (simp add: initial_def)
  have "restart ?R (initial None) = Some ?S"
    unfolding restart_def rc sp by (simp add: initial_def startSnake_def)
  then have "step (-) ?R (KeyDown ''r'') (initial None) = Some (Inr ?S)"
    by (simp add: step_def onKey_cases toLowerCase_def)
  from reachable_step [OF reachable_initial this] have re: "reachable (-) ?R ?S" .
  from food_off_snake [where rnd = ?R and i = 0 and s = startSnake and k = 1 and st = ?S and fsub = "(-)"] second re
  show ?thesis
    by blast
qed

subsection \<open>Restart\<close>



subsection \<open>The best score\<close>

lemma tick_best:
  assumes "tick rnd st = Some (Inr st')"
  shows "best st \<le> best st' \<and>
         (best st' \<noteq> best st \<longrightarrow> dead st' \<and> best st' = max (best st) (score st))"
  using assms
proof (cases rule: tick_result)
  case (death head body)
  then show ?thesis
    by (simp add: die_fields)
next
  case (meal head body f n)
  then show ?thesis
    by simp
next
  case (move head body)
  then show ?thesis
    by simp
qed

lemma step_best:
  assumes "step fsub rnd ev st = Some (Inr st')"
  shows "best st \<le> best st' \<and>
         (best st' \<noteq> best st \<longrightarrow>
            ev = Tick \<and> \<not> dead st \<and> dead st' \<and> best st' = max (best st) (score st))"
  using assms
proof (cases rule: step_frame)
  case quiet
  then show ?thesis
    by simp
next
  case restart
  from restart_result(9) [OF this] show ?thesis
    by simp
next
  case tick
  from tick_best [OF tick(5)] tick(1,4) show ?thesis
    by blast
qed

text \<open>The tick that kills records the score: the best score afterwards is the maximum.\<close>

lemma tick_death_records:
  assumes "tick rnd st = Some (Inr st')" and "\<not> dead st" and "dead st'"
  shows "best st' = max (best st) (score st) \<and> score st' = score st"
  using assms(1)
proof (cases rule: tick_result)
  case (death head body)
  then show ?thesis
    by (simp add: die_fields)
next
  case (meal head body f n)
  with assms(2,3) show ?thesis
    by simp
next
  case (move head body)
  with assms(2,3) show ?thesis
    by simp
qed

lemma step_death_records:
  assumes "step fsub rnd ev st = Some (Inr st')" and "\<not> dead st" and "dead st'"
  shows "ev = Tick \<and> best st' = max (best st) (score st) \<and> score st' = score st"
  using assms(1)
proof (cases rule: step_frame)
  case quiet
  from quiet(5) [OF assms(3)] assms(2) show ?thesis
    by simp
next
  case restart
  from restart_result(6) [OF this] assms(3) show ?thesis
    by simp
next
  case tick
  from tick_death_records [OF tick(5) assms(2,3)] tick(1) show ?thesis
    by simp
qed

lemma run_best:
  "run fsub rnd evs st = Some (Inr st') \<Longrightarrow> best st \<le> best st'"
proof (induction evs arbitrary: st)
  case Nil
  then show ?case by simp
next
  case (Cons ev evs)
  from Cons.prems obtain mid where one: "step fsub rnd ev st = Some (Inr mid)"
    and more: "run fsub rnd evs mid = Some (Inr st')"
    by (auto split: option.splits sum.splits)
  from step_best [OF one] Cons.IH [OF more] show ?case
    by simp
qed

text \<open>
  Claim C7. \<open>die\<close> sets the best score to the maximum of the old best score and the
  final score. An event that takes the game from not dead to dead is a tick, and after
  it the best score is the maximum of the old best score and the score, which the tick
  leaves as it is. Over one event the best score never decreases, and it changes only
  in such a tick; so over any session it never decreases.
\<close>

theorem best_grows_only_at_death:
  "best (die finalScore st) = max (best st) finalScore
   \<and> (step fsub rnd ev st = Some (Inr st') \<and> \<not> dead st \<and> dead st' \<longrightarrow>
        ev = Tick \<and> best st' = max (best st) (score st) \<and> score st' = score st)
   \<and> (step fsub rnd ev st = Some (Inr st') \<longrightarrow>
        best st \<le> best st'
        \<and> (best st' \<noteq> best st \<longrightarrow>
             ev = Tick \<and> \<not> dead st \<and> dead st' \<and> best st' = max (best st) (score st)))
   \<and> (run fsub rnd evs st = Some (Inr st'') \<longrightarrow> best st \<le> best st'')"
proof (intro conjI impI)
  show "best (die finalScore st) = max (best st) finalScore"
    by (rule die_fields)
next
  assume "step fsub rnd ev st = Some (Inr st') \<and> \<not> dead st \<and> dead st'"
  then have "step fsub rnd ev st = Some (Inr st')" "\<not> dead st" "dead st'"
    by blast+
  from step_death_records [OF this]
  show "ev = Tick" "best st' = max (best st) (score st)" "score st' = score st"
    by blast+
next
  assume one: "step fsub rnd ev st = Some (Inr st')"
  from step_best [OF one] show "best st \<le> best st'"
    by blast
  assume "best st' \<noteq> best st"
  with step_best [OF one]
  show "ev = Tick" "\<not> dead st" "dead st'" "best st' = max (best st) (score st)"
    by blast+
next
  assume "run fsub rnd evs st = Some (Inr st'')"
  then show "best st \<le> best st''"
    by (rule run_best)
qed

text \<open>A running game with best score 1 dies at score 3: the best score is 3 afterwards.\<close>

theorem best_grows_only_at_death_witness:
  "step (-) (\<lambda>_. 0) Tick ((initial (Some 1))\<lparr>score := 3, running := True, nextDir := Left\<rparr>)
     = Some (Inr (die 3 ((initial (Some 1))\<lparr>score := 3, running := True, nextDir := Left, dir := Left\<rparr>)))
   \<and> \<not> dead ((initial (Some 1))\<lparr>score := 3, running := True, nextDir := Left\<rparr>)
   \<and> dead (die 3 ((initial (Some 1))\<lparr>score := 3, running := True, nextDir := Left, dir := Left\<rparr>))
   \<and> best ((initial (Some 1))\<lparr>score := 3, running := True, nextDir := Left\<rparr>) = 1
   \<and> best (die 3 ((initial (Some 1))\<lparr>score := 3, running := True, nextDir := Left, dir := Left\<rparr>)) = 3"
proof -
  let ?s = "(initial (Some 1))\<lparr>score := 3, running := True, nextDir := Left\<rparr>"
  let ?t = "die 3 ((initial (Some 1))\<lparr>score := 3, running := True, nextDir := Left, dir := Left\<rparr>)"
  have one: "step (-) (\<lambda>_. 0) Tick ?s = Some (Inr ?t)"
    by (simp add: step_def tick_def Let_def nextCell_def dirVec_def wrap_def GRID_def same_def
        initial_def)
  have alive: "\<not> dead ?s" and over: "dead ?t"
    by (simp_all add: initial_def die_def Let_def)
  have was: "best ?s = 1" and sc: "score ?s = 3"
    by (simp_all add: initial_def)
  from best_grows_only_at_death [where st = ?s and fsub = "(-)" and rnd = "\<lambda>_. 0" and ev = Tick
      and st' = ?t] one alive over
  have "best ?t = max (best ?s) (score ?s)"
    by blast
  with was sc have "best ?t = 3"
    by simp
  with one alive over was show ?thesis
    by blast
qed

subsection \<open>The lifecycle flags\<close>

lemma tick_keeps_flags:
  assumes "tick rnd st = Some (Inr st')" and "flags_ok st"
  shows "flags_ok st'"
  using assms(1)
proof (cases rule: tick_result)
  case (death head body)
  then show ?thesis
    by (simp add: die_fields)
next
  case (meal head body f n)
  with assms(2) show ?thesis
    by simp
next
  case (move head body)
  with assms(2) show ?thesis
    by simp
qed

lemma step_keeps_flags:
  assumes "step fsub rnd ev st = Some (Inr st')" and "flags_ok st"
  shows "flags_ok st'"
  using assms(1)
proof (cases rule: step_frame)
  case quiet
  from quiet(4) [OF assms(2)] show ?thesis .
next
  case restart
  from restart_result(6) [OF this] show ?thesis
    by simp
next
  case tick
  from tick_keeps_flags [OF tick(5) assms(2)] show ?thesis .
qed

lemma reachable_flags:
  assumes "reachable fsub rnd st"
  shows "flags_ok st"
  using assms
proof (induction rule: reachable.induct)
  case (reachable_initial stored)
  show ?case
    by (simp add: initial_def)
next
  case (reachable_step st ev st')
  from step_keeps_flags [OF reachable_step(2) reachable_step(3)] show ?case .
qed

text \<open>
  Claim C9. In every reachable state a dead game is neither running nor paused, and
  every event keeps it so: start, the pause toggle, restart, \<open>die\<close> and the tick
  each return consistent flags from consistent flags.
\<close>

theorem dead_implies_stopped:
  "(reachable fsub rnd st \<longrightarrow> flags_ok st)
   \<and> (flags_ok st \<and> step fsub rnd ev st = Some (Inr st') \<longrightarrow> flags_ok st')
   \<and> flags_ok (startGame st)
   \<and> (flags_ok st \<longrightarrow> flags_ok (togglePause st))
   \<and> (restart rnd st = Some st' \<longrightarrow> flags_ok st')
   \<and> (dead (die finalScore st) \<and> \<not> running (die finalScore st) \<and> \<not> paused (die finalScore st))
   \<and> (flags_ok st \<and> tick rnd st = Some (Inr st') \<longrightarrow> flags_ok st')"
proof (intro conjI)
  show "reachable fsub rnd st \<longrightarrow> flags_ok st"
    using reachable_flags [of fsub rnd st] by blast
  show "flags_ok st \<and> step fsub rnd ev st = Some (Inr st') \<longrightarrow> flags_ok st'"
    using step_keeps_flags [of fsub rnd ev st st'] by blast
  show "flags_ok (startGame st)"
    by (simp add: startGame_def)
  show "flags_ok st \<longrightarrow> flags_ok (togglePause st)"
    by (simp add: togglePause_def)
  show "restart rnd st = Some st' \<longrightarrow> flags_ok st'"
    using restart_result(6) [of rnd st st'] by blast
  show "dead (die finalScore st)" "\<not> running (die finalScore st)" "\<not> paused (die finalScore st)"
    by (rule die_fields)+
  show "flags_ok st \<and> tick rnd st = Some (Inr st') \<longrightarrow> flags_ok st'"
    using tick_keeps_flags [of rnd st st'] by blast
qed

text \<open>
  Start, a request for up, a request for left, one tick: the snake of the first render
  runs into its own second cell. The state is dead, not running and not paused.
\<close>

theorem dead_implies_stopped_witness:
  "reachable (-) (\<lambda>_. 0)
     (die 0 ((setNextDirection Left (setNextDirection Up (startGame (initial None))))\<lparr>dir := Left\<rparr>))
   \<and> dead (die 0 ((setNextDirection Left (setNextDirection Up (startGame (initial None))))\<lparr>dir := Left\<rparr>))
   \<and> \<not> running
        (die 0 ((setNextDirection Left (setNextDirection Up (startGame (initial None))))\<lparr>dir := Left\<rparr>))
   \<and> \<not> paused
        (die 0 ((setNextDirection Left (setNextDirection Up (startGame (initial None))))\<lparr>dir := Left\<rparr>))"
proof -
  let ?R = "\<lambda>_::nat. 0::real"
  let ?s1 = "startGame (initial None)"
  let ?s2 = "setNextDirection Up ?s1"
  let ?s3 = "setNextDirection Left ?s2"
  let ?s4 = "die 0 (?s3\<lparr>dir := Left\<rparr>)"
  have "step (-) ?R (KeyDown ''s'') (initial None) = Some (Inr ?s1)"
    by (simp add: step_def onKey_cases toLowerCase_def)
  from reachable_step [OF reachable_initial this] have r1: "reachable (-) ?R ?s1" .
  have "step (-) ?R (KeyDown ''ArrowUp'') ?s1 = Some (Inr ?s2)"
    by (simp add: step_def onKey_cases)
  from reachable_step [OF r1 this] have r2: "reachable (-) ?R ?s2" .
  have "step (-) ?R (KeyDown ''ArrowLeft'') ?s2 = Some (Inr ?s3)"
    by (simp add: step_def onKey_cases)
  from reachable_step [OF r2 this] have r3: "reachable (-) ?R ?s3" .
  have "step (-) ?R Tick ?s3 = Some (Inr ?s4)"
    by (simp add: step_def tick_def Let_def nextCell_def dirVec_def wrap_def GRID_def same_def
        startGame_def setNextDirection_def isOpposite_def initial_def)
  from reachable_step [OF r3 this] have r4: "reachable (-) ?R ?s4" .
  have d: "dead ?s4"
    by (rule die_fields)
  from dead_implies_stopped [where fsub = "(-)" and rnd = ?R and st = ?s4] r4 d show ?thesis
    by blast
qed

end
